theory Spec2Isabelle
  imports Complex_Main "HOL-Library.Char_ord" "HOL-Library.List_Lexorder"
begin

section \<open>Values, exceptions and the Python built-ins used by the script\<close>

text \<open>
  The script is \<^verbatim>\<open>scripts/rhodl_ratio_raw_data.py\<close>. Exceptions are values of
  \<open>error\<close>; a function that can raise returns \<open>error + 'a\<close> with \<open>Inl\<close> the exception.
  \<open>OutOfRange\<close> stands for the exception \<^verbatim>\<open>datetime.fromtimestamp\<close> raises for an instant
  outside the years 1..9999 (OverflowError, ValueError or OSError, depending on the
  magnitude and the platform).
\<close>

datatype error =
    KeyError string
  | TypeError
  | ValueError
  | OverflowError
  | OutOfRange
  | AttributeError
  | RequestException string
  | OtherException string
  | SystemExit string

text \<open>
  A parsed JSON document, as \<^verbatim>\<open>r.json()\<close> returns it. Python floats are the type
  parameter \<open>'f\<close>; the literal \<^verbatim>\<open>0.0\<close> is \<open>0\<close>. An object is the parsed \<^verbatim>\<open>dict\<close>
  (keys unique), kept as an association list and read with \<open>map_of\<close>.
\<close>

datatype 'f json =
    JNull
  | JBool bool
  | JInt int
  | JFloat 'f
  | JStr string
  | JArr "'f json list"
  | JObj "(string \<times> 'f json) list"

text \<open>
  The conversions of the interpreter that the script relies on and that depend on the
  float format or on Python's number grammar are parameters: \<open>int_of_str\<close> is
  \<^verbatim>\<open>int(s)\<close> on a string (None: ValueError), \<open>int_of_float\<close> is \<^verbatim>\<open>int(x)\<close> on a float
  (truncation; ValueError on nan, OverflowError on an infinity), \<open>float_of_int\<close> is \<^verbatim>\<open>float(n)\<close> on an int
  (None: OverflowError), \<open>float_of_str\<close> is \<^verbatim>\<open>float(s)\<close> on a string
  (None: ValueError) and \<open>str_of_json\<close> is \<^verbatim>\<open>str(raw)\<close> on a parsed document.
\<close>

datatype truncation = Truncated int | IsNan | IsInfinity

record 'f builtins =
  int_of_str :: "string \<Rightarrow> int option"
  int_of_float :: "'f \<Rightarrow> truncation"
  float_of_int :: "int \<Rightarrow> 'f option"
  float_of_str :: "string \<Rightarrow> 'f option"
  str_of_json :: "'f json \<Rightarrow> string"

fun py_int :: "'f builtins \<Rightarrow> 'f json \<Rightarrow> error + int" where
  "py_int B (JInt n) = Inr n"
| "py_int B (JBool b) = Inr (if b then 1 else 0)"
| "py_int B (JFloat x) =
     (case int_of_float B x of
        Truncated n \<Rightarrow> Inr n
      | IsNan \<Rightarrow> Inl ValueError
      | IsInfinity \<Rightarrow> Inl OverflowError)"
| "py_int B (JStr s) = (case int_of_str B s of None \<Rightarrow> Inl ValueError | Some n \<Rightarrow> Inr n)"
| "py_int B JNull = Inl TypeError"
| "py_int B (JArr xs) = Inl TypeError"
| "py_int B (JObj kvs) = Inl TypeError"

fun py_float :: "'f builtins \<Rightarrow> 'f json \<Rightarrow> error + 'f" where
  "py_float B (JFloat x) = Inr x"
| "py_float B (JInt n) = (case float_of_int B n of None \<Rightarrow> Inl OverflowError | Some x \<Rightarrow> Inr x)"
| "py_float B (JBool b) =
     (case float_of_int B (if b then 1 else 0) of None \<Rightarrow> Inl OverflowError | Some x \<Rightarrow> Inr x)"
| "py_float B (JStr s) = (case float_of_str B s of None \<Rightarrow> Inl ValueError | Some x \<Rightarrow> Inr x)"
| "py_float B JNull = Inl TypeError"
| "py_float B (JArr xs) = Inl TypeError"
| "py_float B (JObj kvs) = Inl TypeError"

text \<open>\<^verbatim>\<open>row[key]\<close> with a string key: only a dict can be subscripted by a string.\<close>

fun py_getitem :: "'f json \<Rightarrow> string \<Rightarrow> error + 'f json" where
  "py_getitem (JObj kvs) k = (case map_of kvs k of None \<Rightarrow> Inl (KeyError k) | Some v \<Rightarrow> Inr v)"
| "py_getitem v k = Inl TypeError"

text \<open>\<^verbatim>\<open>row.get(key, default)\<close>: only a dict has the method.\<close>

fun py_get :: "'f json \<Rightarrow> string \<Rightarrow> 'f json \<Rightarrow> error + 'f json" where
  "py_get (JObj kvs) k d = Inr (case map_of kvs k of None \<Rightarrow> d | Some v \<Rightarrow> v)"
| "py_get v k d = Inl AttributeError"

section \<open>UTC calendar date of an epoch-millisecond timestamp\<close>

text \<open>
  \<^verbatim>\<open>datetime.fromtimestamp(ts_ms / 1000, tz=timezone.utc).date().isoformat()\<close>.
  The day number is \<open>ts_ms div 86400000\<close> (floor division): in the range of years the
  library accepts, the float quotient \<^verbatim>\<open>ts_ms / 1000\<close> is within 2^-16 s of the exact
  value, which never crosses a second. The proleptic Gregorian ordinal of 1970-01-01 is
  719163, and the ordinal is turned into year, month and day as the library's
  \<^verbatim>\<open>_ord2ymd\<close> does.
\<close>

definition days_before_month :: "int \<Rightarrow> int" where
  "days_before_month m =
     (if m = 1 then 0 else if m = 2 then 31 else if m = 3 then 59 else if m = 4 then 90
      else if m = 5 then 120 else if m = 6 then 151 else if m = 7 then 181
      else if m = 8 then 212 else if m = 9 then 243 else if m = 10 then 273
      else if m = 11 then 304 else 334)"

definition days_in_month :: "int \<Rightarrow> int" where
  "days_in_month m =
     (if m = 2 then 28 else if m = 4 \<or> m = 6 \<or> m = 9 \<or> m = 11 then 30 else 31)"

definition ord2ymd :: "int \<Rightarrow> int \<times> int \<times> int" where
  "ord2ymd ordinal =
     (let n0 = ordinal - 1;
          n400 = n0 div 146097; na = n0 mod 146097;
          n100 = na div 36524; nb = na mod 36524;
          n4 = nb div 1461; nc = nb mod 1461;
          n1 = nc div 365; n = nc mod 365;
          year = n400 * 400 + 1 + n100 * 100 + n4 * 4 + n1
      in if n1 = 4 \<or> n100 = 4 then (year - 1, 12, 31)
         else
           let leapyear = (n1 = 3 \<and> (n4 \<noteq> 24 \<or> n100 = 3));
               month = (n + 50) div 32;
               preceding = days_before_month month + (if month > 2 \<and> leapyear then 1 else 0)
           in if preceding > n
              then let month' = month - 1;
                       preceding' = preceding -
                         (days_in_month month' + (if month' = 2 \<and> leapyear then 1 else 0))
                   in (year, month', n - preceding' + 1)
              else (year, month, n - preceding + 1))"

definition digit_char :: "nat \<Rightarrow> char" where
  "digit_char n = ''0123456789'' ! (n mod 10)"

definition pad2 :: "nat \<Rightarrow> string" where
  "pad2 n = [digit_char (n div 10), digit_char n]"

definition pad4 :: "nat \<Rightarrow> string" where
  "pad4 n = [digit_char (n div 1000), digit_char (n div 100), digit_char (n div 10), digit_char n]"

text \<open>\<^verbatim>\<open>date.isoformat()\<close>, \<^verbatim>\<open>"%04d-%02d-%02d"\<close>, for a year in 1..9999.\<close>

definition isoformat :: "int \<times> int \<times> int \<Rightarrow> string" where
  "isoformat ymd = (case ymd of (y, m, d) \<Rightarrow> pad4 (nat y) @ ''-'' @ pad2 (nat m) @ ''-'' @ pad2 (nat d))"

definition utc_ordinal :: "int \<Rightarrow> int" where
  "utc_ordinal ts_ms = ts_ms div 86400000 + 719163"

definition utc_date :: "int \<Rightarrow> error + string" where
  "utc_date ts_ms =
     (let ordinal = utc_ordinal ts_ms
      in if ordinal < 1 \<or> 3652059 < ordinal then Inl OutOfRange
         else Inr (isoformat (ord2ymd ordinal)))"

section \<open>normalize\<close>

record 'f rhodl_record =
  date :: string
  rhodl_ratio :: 'f
  price :: 'f
  timestamp_ms :: int

text \<open>The body of the loop: the record appended for one row, or the exception raised.\<close>

definition row_record :: "('f::zero) builtins \<Rightarrow> 'f json \<Rightarrow> error + 'f rhodl_record" where
  "row_record B row =
     (case py_getitem row ''timestamp'' of Inl e \<Rightarrow> Inl e | Inr tv \<Rightarrow>
     (case py_int B tv of Inl e \<Rightarrow> Inl e | Inr ts_ms \<Rightarrow>
     (case utc_date ts_ms of Inl e \<Rightarrow> Inl e | Inr d \<Rightarrow>
     (case py_getitem row ''rhodl_ratio'' of Inl e \<Rightarrow> Inl e | Inr rv \<Rightarrow>
     (case py_float B rv of Inl e \<Rightarrow> Inl e | Inr r \<Rightarrow>
     (case py_get row ''price'' (JFloat 0) of Inl e \<Rightarrow> Inl e | Inr pv \<Rightarrow>
     (case py_float B pv of Inl e \<Rightarrow> Inl e | Inr p \<Rightarrow>
      Inr \<lparr>date = d, rhodl_ratio = r, price = p, timestamp_ms = ts_ms\<rparr>)))))))"

text \<open>
  The three conversions of the loop body on their own: \<^verbatim>\<open>int(row["timestamp"])\<close>,
  \<^verbatim>\<open>float(row["rhodl_ratio"])\<close> and \<^verbatim>\<open>float(row.get("price", 0.0))\<close>.
\<close>

definition row_timestamp :: "'f builtins \<Rightarrow> 'f json \<Rightarrow> error + int" where
  "row_timestamp B row =
     (case py_getitem row ''timestamp'' of Inl e \<Rightarrow> Inl e | Inr tv \<Rightarrow> py_int B tv)"

definition row_ratio :: "'f builtins \<Rightarrow> 'f json \<Rightarrow> error + 'f" where
  "row_ratio B row =
     (case py_getitem row ''rhodl_ratio'' of Inl e \<Rightarrow> Inl e | Inr rv \<Rightarrow> py_float B rv)"

definition row_price :: "('f::zero) builtins \<Rightarrow> 'f json \<Rightarrow> error + 'f" where
  "row_price B row =
     (case py_get row ''price'' (JFloat 0) of Inl e \<Rightarrow> Inl e | Inr pv \<Rightarrow> py_float B pv)"

text \<open>The loop over the rows: \<open>out\<close> in input order, or the first exception.\<close>

fun rows_records :: "('f::zero) builtins \<Rightarrow> 'f json list \<Rightarrow> error + 'f rhodl_record list" where
  "rows_records B [] = Inr []"
| "rows_records B (row # rows) =
     (case row_record B row of Inl e \<Rightarrow> Inl e | Inr r \<Rightarrow>
     (case rows_records B rows of Inl e \<Rightarrow> Inl e | Inr rs \<Rightarrow> Inr (r # rs)))"

text \<open>
  Assignment \<^verbatim>\<open>d[k] = v\<close> on a Python dict, which keeps insertion order: an existing
  key keeps its place and takes the new value, a new key goes to the end.
\<close>

fun dict_set :: "'k \<Rightarrow> 'v \<Rightarrow> ('k \<times> 'v) list \<Rightarrow> ('k \<times> 'v) list" where
  "dict_set k v [] = [(k, v)]"
| "dict_set k v ((k', v') # d) = (if k' = k then (k', v) # d else (k', v') # dict_set k v d)"

text \<open>\<^verbatim>\<open>{rec["date"]: rec for rec in out}\<close> and \<^verbatim>\<open>list(....values())\<close>\<close>

definition date_dict :: "'f rhodl_record list \<Rightarrow> (string \<times> 'f rhodl_record) list" where
  "date_dict out = foldl (\<lambda>d rec. dict_set (date rec) rec d) [] out"

definition dedup_by_date :: "'f rhodl_record list \<Rightarrow> 'f rhodl_record list" where
  "dedup_by_date out = map snd (date_dict out)"

text \<open>
  \<^verbatim>\<open>for row in records\<close>: the annotation \<^verbatim>\<open>List[Dict[str, Any]]\<close> is not enforced, so the
  argument is any parsed value. A list gives its elements, a dict its keys, a string its
  characters; nothing else can be iterated.
\<close>

fun py_iter :: "'f json \<Rightarrow> error + 'f json list" where
  "py_iter (JArr xs) = Inr xs"
| "py_iter (JObj kvs) = Inr (map (\<lambda>kv. JStr (fst kv)) kvs)"
| "py_iter (JStr s) = Inr (map (\<lambda>c. JStr [c]) s)"
| "py_iter v = Inl TypeError"

definition normalize :: "('f::zero) builtins \<Rightarrow> 'f json \<Rightarrow> error + 'f rhodl_record list" where
  "normalize B records =
     (case py_iter records of
        Inl e \<Rightarrow> Inl e
      | Inr rows \<Rightarrow>
          (case rows_records B rows of
             Inl e \<Rightarrow> Inl e
           | Inr out \<Rightarrow> Inr (dedup_by_date (sort_key date out))))"

section \<open>fetch_rhodl_json\<close>

text \<open>
  The network is a function from the attempt number to what that call of
  \<^verbatim>\<open>requests.get\<close>, \<^verbatim>\<open>raise_for_status\<close> and \<^verbatim>\<open>r.json()\<close> gives: the parsed document, or
  the exception raised (\<open>RequestException\<close> with its message is the one the loop catches).
  The run is observed through its trace of GETs and sleeps; a sleep is in seconds.
\<close>

datatype event = Get int | Sleep rat

fun show_nat :: "nat \<Rightarrow> string" where
  "show_nat n = (if n < 10 then [digit_char n] else show_nat (n div 10) @ [digit_char n])"

declare show_nat.simps [simp del]

definition show_int :: "int \<Rightarrow> string" where
  "show_int i = (if i < 0 then ''-'' @ show_nat (nat (- i)) else show_nat (nat i))"

definition fetch_failed_message :: "int \<Rightarrow> string option \<Rightarrow> string" where
  "fetch_failed_message max_retries last_err =
     ''ERROR: API request failed after '' @ show_int max_retries @ '' attempts: '' @
       (case last_err of None \<Rightarrow> ''None'' | Some e \<Rightarrow> e)"

text \<open>The loop over \<^verbatim>\<open>range(1, max_retries + 1)\<close>, on the attempts still to make.\<close>

fun fetch_attempts ::
  "(int \<Rightarrow> error + 'f json) \<Rightarrow> int \<Rightarrow> int list \<Rightarrow> string option \<Rightarrow> event list
     \<Rightarrow> (error + 'f json) \<times> event list" where
  "fetch_attempts http max_retries [] last_err tr =
     (Inl (SystemExit (fetch_failed_message max_retries last_err)), tr)"
| "fetch_attempts http max_retries (attempt # rest) last_err tr =
     (case http attempt of
        Inr doc \<Rightarrow> (Inr doc, tr @ [Get attempt])
      | Inl (RequestException e) \<Rightarrow>
          fetch_attempts http max_retries rest (Some e)
            (if attempt < max_retries
             then tr @ [Get attempt, Sleep (3 / 2 * of_int attempt)]
             else tr @ [Get attempt])
      | Inl other \<Rightarrow> (Inl other, tr @ [Get attempt]))"

definition fetch_rhodl_json ::
  "(int \<Rightarrow> error + 'f json) \<Rightarrow> int \<Rightarrow> (error + 'f json) \<times> event list" where
  "fetch_rhodl_json http max_retries = fetch_attempts http max_retries [1..max_retries] None []"

fun is_Get :: "event \<Rightarrow> bool" where
  "is_Get (Get k) = True"
| "is_Get (Sleep t) = False"

section \<open>The worksheet\<close>

text \<open>
  The spreadsheet client and the service behind it are not part of the script; they are
  modelled from their documented behaviour, on the values of the cells only (formats and
  notes are not modelled). A worksheet is its grid, a list of rows of cells, read through
  \<open>cell_at\<close>; a cell beyond the stored rows is blank, and the grid grows to hold what is
  written (the service's grid limits are outside this model). Rows and columns are counted
  from 0 here, from 1 in the A1 notation.
\<close>

datatype 'f cell = Blank | Text string | Number 'f

type_synonym 'f worksheet = "'f cell list list"

definition cell_at :: "'f worksheet \<Rightarrow> nat \<Rightarrow> nat \<Rightarrow> 'f cell" where
  "cell_at ws r c = (if r < length ws \<and> c < length (ws ! r) then ws ! r ! c else Blank)"

definition row_width :: "'f worksheet \<Rightarrow> nat \<Rightarrow> nat" where
  "row_width ws r = (if r < length ws then length (ws ! r) else 0)"

text \<open>
  A grid range as the batch-update request gives it: a missing index leaves the range
  unbounded on that side; end indexes are exclusive.
\<close>

record grid_range =
  startRowIndex :: "nat option"
  endRowIndex :: "nat option"
  startColumnIndex :: "nat option"
  endColumnIndex :: "nat option"

definition in_bounds :: "nat option \<Rightarrow> nat option \<Rightarrow> nat \<Rightarrow> bool" where
  "in_bounds lo hi i =
     ((case lo of None \<Rightarrow> True | Some l \<Rightarrow> l \<le> i) \<and> (case hi of None \<Rightarrow> True | Some h \<Rightarrow> i < h))"

definition in_range :: "grid_range \<Rightarrow> nat \<Rightarrow> nat \<Rightarrow> bool" where
  "in_range g r c =
     (in_bounds (startRowIndex g) (endRowIndex g) r \<and>
      in_bounds (startColumnIndex g) (endColumnIndex g) c)"

text \<open>
  A range in A1 notation: \<open>Columns a b\<close> is whole columns (\<^verbatim>\<open>"A:B"\<close> is \<open>Columns 1 2\<close>),
  \<open>Cells c1 r1 c2 r2\<close> is a block (\<^verbatim>\<open>"A1:B7"\<close> is \<open>Cells 1 1 2 7\<close>).
\<close>

datatype a1_range = Columns nat nat | Cells nat nat nat nat

fun a1_to_grid :: "a1_range \<Rightarrow> grid_range" where
  "a1_to_grid (Columns a b) =
     \<lparr>startRowIndex = None, endRowIndex = None,
      startColumnIndex = Some (a - 1), endColumnIndex = Some b\<rparr>"
| "a1_to_grid (Cells c1 r1 c2 r2) =
     \<lparr>startRowIndex = Some (r1 - 1), endRowIndex = Some r2,
      startColumnIndex = Some (c1 - 1), endColumnIndex = Some c2\<rparr>"

text \<open>Clearing the values of every cell of a grid range.\<close>

definition clear_range :: "grid_range \<Rightarrow> 'f worksheet \<Rightarrow> 'f worksheet" where
  "clear_range g ws =
     map (\<lambda>r. map (\<lambda>c. if in_range g r c then Blank else ws ! r ! c) [0..<length (ws ! r)])
       [0..<length ws]"

text \<open>\<^verbatim>\<open>ws.batch_clear(ranges)\<close>: the values of the named ranges are cleared, one after another.\<close>

definition batch_clear :: "a1_range list \<Rightarrow> 'f worksheet \<Rightarrow> 'f worksheet" where
  "batch_clear ranges ws = fold (\<lambda>rng. clear_range (a1_to_grid rng)) ranges ws"

text \<open>
  An \<^verbatim>\<open>updateCells\<close> request that carries no rows and the field mask
  \<^verbatim>\<open>userEnteredValue\<close>: the masked field, the value, is cleared in the whole range.
\<close>

definition update_cells_clear :: "grid_range \<Rightarrow> 'f worksheet \<Rightarrow> 'f worksheet" where
  "update_cells_clear g ws = clear_range g ws"

text \<open>Writing a block of values with its top-left corner at row \<open>r0\<close>, column \<open>c0\<close>.\<close>

definition in_block :: "nat \<Rightarrow> nat \<Rightarrow> 'f cell list list \<Rightarrow> nat \<Rightarrow> nat \<Rightarrow> bool" where
  "in_block r0 c0 vals r c =
     (r0 \<le> r \<and> r - r0 < length vals \<and> c0 \<le> c \<and> c - c0 < length (vals ! (r - r0)))"

definition block_width :: "nat \<Rightarrow> nat \<Rightarrow> 'f cell list list \<Rightarrow> nat \<Rightarrow> nat" where
  "block_width r0 c0 vals r =
     (if r0 \<le> r \<and> r - r0 < length vals then c0 + length (vals ! (r - r0)) else 0)"

definition write_block :: "nat \<Rightarrow> nat \<Rightarrow> 'f cell list list \<Rightarrow> 'f worksheet \<Rightarrow> 'f worksheet" where
  "write_block r0 c0 vals ws =
     map (\<lambda>r. map (\<lambda>c. if in_block r0 c0 vals r c then vals ! (r - r0) ! (c - c0) else cell_at ws r c)
                 [0..<max (row_width ws r) (block_width r0 c0 vals r)])
       [0..<max (length ws) (r0 + length vals)]"

text \<open>
  \<^verbatim>\<open>ws.update(range_name=..., values=..., value_input_option="RAW")\<close>: the values are stored
  as given, from the top-left corner of the range, and only inside the range.
\<close>

fun ws_update :: "a1_range \<Rightarrow> 'f cell list list \<Rightarrow> 'f worksheet \<Rightarrow> 'f worksheet" where
  "ws_update (Cells c1 r1 c2 r2) vals ws =
     write_block (r1 - 1) (c1 - 1) (map (take (c2 - (c1 - 1))) (take (r2 - (r1 - 1)) vals)) ws"
| "ws_update (Columns a b) vals ws =
     write_block 0 (a - 1) (map (take (b - (a - 1))) vals) ws"

text \<open>
  \<^verbatim>\<open>ws.col_values(col)\<close>: the displayed strings of one column from the first row down to
  the last non-empty cell, an empty cell in between being the empty string. How a number
  is displayed is the parameter \<open>disp\<close>.
\<close>

fun display :: "('f \<Rightarrow> string) \<Rightarrow> 'f cell \<Rightarrow> string" where
  "display disp Blank = []"
| "display disp (Text s) = s"
| "display disp (Number x) = disp x"

definition rstrip :: "('a \<Rightarrow> bool) \<Rightarrow> 'a list \<Rightarrow> 'a list" where
  "rstrip P xs = rev (dropWhile P (rev xs))"

definition col_values :: "('f \<Rightarrow> string) \<Rightarrow> nat \<Rightarrow> 'f worksheet \<Rightarrow> string list" where
  "col_values disp col ws =
     rstrip (\<lambda>s. s = []) (map (\<lambda>r. display disp (cell_at ws r (col - 1))) [0..<length ws])"

text \<open>
  \<^verbatim>\<open>ws.append_rows(values, value_input_option="RAW")\<close>: the rows go below the last row of
  the sheet that holds a value, from column A.
\<close>

definition row_blank :: "'f cell list \<Rightarrow> bool" where
  "row_blank row = list_all (\<lambda>v. v = Blank) row"

definition used_rows :: "'f worksheet \<Rightarrow> nat" where
  "used_rows ws = length (rstrip row_blank ws)"

definition append_rows :: "'f cell list list \<Rightarrow> 'f worksheet \<Rightarrow> 'f worksheet" where
  "append_rows vals ws = write_block (used_rows ws) 0 vals ws"

section \<open>The two sink modes\<close>

definition header_row :: "'f cell list" where
  "header_row = [Text ''Date'', Text ''RHODL Ratio'']"

definition sheet_row :: "'f rhodl_record \<Rightarrow> 'f cell list" where
  "sheet_row r = [Text (date r), Number (rhodl_ratio r)]"

text \<open>
  \<open>has_batch_clear\<close> says whether the client has the method \<^verbatim>\<open>batch_clear\<close>; without it
  the call raises AttributeError and the fallback request is sent.
\<close>

definition clear_ab_primary :: "'f worksheet \<Rightarrow> 'f worksheet" where
  "clear_ab_primary ws = batch_clear [Columns 1 2] ws"

definition clear_ab_fallback :: "'f worksheet \<Rightarrow> 'f worksheet" where
  "clear_ab_fallback ws =
     update_cells_clear
       \<lparr>startRowIndex = Some 0, endRowIndex = None,
        startColumnIndex = Some 0, endColumnIndex = Some 2\<rparr> ws"

definition write_cols_ab_overwrite ::
  "bool \<Rightarrow> 'f worksheet \<Rightarrow> 'f rhodl_record list \<Rightarrow> 'f worksheet" where
  "write_cols_ab_overwrite has_batch_clear ws records =
     (let rows = header_row # map sheet_row records;
          cleared = (if has_batch_clear then clear_ab_primary ws else clear_ab_fallback ws);
          end_row = length rows
      in ws_update (Cells 1 1 2 end_row) rows cleared)"

definition existing_dates :: "string list \<Rightarrow> string list" where
  "existing_dates existing = (if existing = [] then [] else filter (\<lambda>x. x \<noteq> []) (tl existing))"

definition append_only_cols_ab ::
  "('f \<Rightarrow> string) \<Rightarrow> 'f worksheet \<Rightarrow> 'f rhodl_record list \<Rightarrow> 'f worksheet \<times> nat" where
  "append_only_cols_ab disp ws records =
     (let existing = col_values disp 1 ws;
          ws1 = (if existing = [] then ws_update (Cells 1 1 2 1) [header_row] ws else ws);
          present = existing_dates existing;
          new_rows = map sheet_row (filter (\<lambda>r. date r \<notin> set present) records);
          ws2 = (if new_rows \<noteq> [] then append_rows new_rows ws1 else ws1)
      in (ws2, length new_rows))"

section \<open>main\<close>




section \<open>A concrete interpreter for evaluation\<close>

text \<open>
  Floats as exact rationals, with no string conversions: enough to run the definitions on
  rows whose fields are JSON numbers.
\<close>

definition exact_builtins :: "rat builtins" where
  "exact_builtins =
     \<lparr>int_of_str = (\<lambda>s. None), int_of_float = (\<lambda>x. Truncated (if x < 0 then - \<lfloor>- x\<rfloor> else \<lfloor>x\<rfloor>)),
      float_of_int = (\<lambda>n. Some (of_int n)), float_of_str = (\<lambda>s. None),
      str_of_json = (\<lambda>v. ''<json>'')\<rparr>"

definition row_of :: "int \<Rightarrow> rat \<Rightarrow> rat json" where
  "row_of ts ratio = JObj [(''timestamp'', JInt ts), (''rhodl_ratio'', JFloat ratio)]"

definition demo_records :: "rat rhodl_record list" where
  "demo_records =
     [\<lparr>date = ''2021-01-01'', rhodl_ratio = 1, price = 0, timestamp_ms = 1609459200000\<rparr>,
      \<lparr>date = ''2021-01-02'', rhodl_ratio = 2, price = 0, timestamp_ms = 1609545600000\<rparr>]"

definition demo_sheet :: "rat worksheet" where
  "demo_sheet =
     [[Text ''Date'', Text ''RHODL Ratio'', Text ''note''],
      [Text ''2021-01-01'', Number 1, Blank, Number 7]]"

definition demo_display :: "rat \<Rightarrow> string" where
  "demo_display x = ''#''"


section \<open>The date conversion on known instants\<close>

text \<open>
  Epoch, the millisecond before it, a leap day, a year boundary, a century year that is
  not a leap year, and both ends of the range.
\<close>

lemmas utc_date_unfold =
  utc_date_def utc_ordinal_def ord2ymd_def isoformat_def pad2_def pad4_def digit_char_def
  days_before_month_def days_in_month_def Let_def

lemma utc_date_examples:
  "utc_date 0 = Inr ''1970-01-01''"
  "utc_date (- 1) = Inr ''1969-12-31''"
  "utc_date 86399999 = Inr ''1970-01-01''"
  "utc_date 951782400000 = Inr ''2000-02-29''"
  "utc_date 1609459199999 = Inr ''2020-12-31''"
  "utc_date 1609459200000 = Inr ''2021-01-01''"
  "utc_date 4107542400000 = Inr ''2100-03-01''"
  "utc_date (- 62135596800000) = Inr ''0001-01-01''"
  "utc_date (- 62135596800001) = Inl OutOfRange"
  "utc_date 253402300799999 = Inr ''9999-12-31''"
  "utc_date 253402300800000 = Inl OutOfRange"
  by (simp_all add: utc_date_unfold)

section \<open>Properties of normalize\<close>

lemma dict_set_keys:
  "map fst (dict_set k v d) = (if k \<in> set (map fst d) then map fst d else map fst d @ [k])"
  by (induction d) force+

lemma dict_set_map_of: "map_of (dict_set k v d) = (map_of d)(k \<mapsto> v)"
  by (induction d) (auto simp: fun_eq_iff)

lemma date_dict_snoc: "date_dict (out @ [x]) = dict_set (date x) x (date_dict out)"
  by (simp add: date_dict_def)

lemma date_dict_Nil: "date_dict [] = []"
  by (simp add: date_dict_def)

lemma date_dict_keys_set: "set (map fst (date_dict out)) = date ` set out"
  by (induction out rule: rev_induct) (auto simp: dict_set_keys date_dict_snoc date_dict_Nil)

lemma date_dict_distinct: "distinct (map fst (date_dict out))"
  by (induction out rule: rev_induct) (auto simp: dict_set_keys date_dict_snoc date_dict_Nil)

lemma date_dict_map_of:
  "map_of (date_dict out) k =
     (if k \<in> date ` set out then Some (last (filter (\<lambda>r. date r = k) out)) else None)"
proof (induction out rule: rev_induct)
  case Nil
  show ?case by (simp add: date_dict_Nil)
next
  case (snoc x xs)
  show ?case
  proof (cases "date x = k")
    case True
    then show ?thesis by (simp add: dict_set_map_of date_dict_snoc)
  next
    case False
    then show ?thesis using snoc by (auto simp: dict_set_map_of date_dict_snoc)
  qed
qed

lemma date_dict_entry:
  assumes "(k, v) \<in> set (date_dict out)"
  shows "k \<in> date ` set out \<and> v = last (filter (\<lambda>r. date r = k) out) \<and> date v = k"
proof -
  have "map_of (date_dict out) k = Some v"
    using assms by (simp add: map_of_eq_Some_iff [OF date_dict_distinct])
  then have k: "k \<in> date ` set out" and v: "v = last (filter (\<lambda>r. date r = k) out)"
    by (auto simp: date_dict_map_of split: if_splits)
  from k have ne: "filter (\<lambda>r. date r = k) out \<noteq> []"
    by (auto simp: filter_empty_conv)
  have "last (filter (\<lambda>r. date r = k) out) \<in> set (filter (\<lambda>r. date r = k) out)"
    using ne by (rule last_in_set)
  then have "date v = k" using v by simp
  with k v show ?thesis by simp
qed

lemma dedup_dates: "map date (dedup_by_date out) = map fst (date_dict out)"
  unfolding dedup_by_date_def using date_dict_entry [of _ _ out]
  by auto

lemma date_dict_sorted:
  "sorted (map date out) \<Longrightarrow> sorted_wrt (<) (map fst (date_dict out))"
proof (induction out rule: rev_induct)
  case Nil
  show ?case by (simp add: date_dict_Nil)
next
  case (snoc x xs)
  from snoc.prems have s: "sorted (map date xs)" and le: "\<forall>r\<in>set xs. date r \<le> date x"
    by (auto simp: sorted_append)
  have ih: "sorted_wrt (<) (map fst (date_dict xs))" using snoc.IH s by simp
  show ?case
  proof (cases "date x \<in> set (map fst (date_dict xs))")
    case True
    then show ?thesis using ih by (simp add: dict_set_keys date_dict_snoc)
  next
    case False
    have "\<forall>k\<in>set (map fst (date_dict xs)). k < date x"
    proof
      fix k assume k: "k \<in> set (map fst (date_dict xs))"
      then have "k \<in> date ` set xs" by (simp only: date_dict_keys_set)
      then have "k \<le> date x" using le by auto
      moreover have "k \<noteq> date x" using k False by blast
      ultimately show "k < date x" by simp
    qed
    then show ?thesis using ih False
      by (simp add: dict_set_keys sorted_wrt_append date_dict_snoc del: set_map)
  qed
qed

lemma dedup_sorted_strict: "sorted_wrt (<) (map date (dedup_by_date (sort_key date recs)))"
  by (simp add: dedup_dates date_dict_sorted)

lemma dedup_member:
  "r \<in> set (dedup_by_date out) \<longleftrightarrow>
     (\<exists>k \<in> date ` set out. r = last (filter (\<lambda>x. date x = k) out))"
proof
  assume "r \<in> set (dedup_by_date out)"
  then obtain k where "(k, r) \<in> set (date_dict out)"
    by (auto simp: dedup_by_date_def)
  then show "\<exists>k \<in> date ` set out. r = last (filter (\<lambda>x. date x = k) out)"
    using date_dict_entry by blast
next
  assume "\<exists>k \<in> date ` set out. r = last (filter (\<lambda>x. date x = k) out)"
  then obtain k where k: "k \<in> date ` set out" and r: "r = last (filter (\<lambda>x. date x = k) out)"
    by blast
  then have "map_of (date_dict out) k = Some r" by (simp add: date_dict_map_of)
  then have "(k, r) \<in> set (date_dict out)" by (rule map_of_SomeD)
  then show "r \<in> set (dedup_by_date out)" by (force simp: dedup_by_date_def)
qed

lemma dedup_sorted_member:
  "r \<in> set (dedup_by_date (sort_key date recs)) \<longleftrightarrow>
     (\<exists>k \<in> date ` set recs. r = last (filter (\<lambda>x. date x = k) recs))"
  by (simp add: dedup_member sort_key_stable)

lemma rows_records_nth:
  "rows_records B rows = Inr recs \<Longrightarrow>
     length recs = length rows \<and> (\<forall>i < length rows. row_record B (rows ! i) = Inr (recs ! i))"
proof (induction rows arbitrary: recs)
  case Nil
  then show ?case by simp
next
  case (Cons row rows)
  then show ?case by (auto split: sum.splits simp: nth_Cons split: nat.splits)
qed

lemma normalize_JArr:
  "normalize B (JArr rows) = Inr out \<longleftrightarrow>
     (\<exists>recs. rows_records B rows = Inr recs \<and> out = dedup_by_date (sort_key date recs))"
  by (auto simp: normalize_def split: sum.splits)

lemma normalize_Inr:
  "normalize B records = Inr out \<Longrightarrow> \<exists>recs. out = dedup_by_date (sort_key date recs)"
  by (auto simp: normalize_def split: sum.splits)

text \<open>
  Claim C1. Whenever normalize returns a record list, that list is in ascending order of
  the date field (the ISO date strings, compared as Python compares strings) and no two
  of its records have the same date.
\<close>

theorem normalize_sorted_unique:
  assumes "normalize B records = Inr out"
  shows "sorted (map date out) \<and> distinct (map date out)"
proof -
  obtain recs where "out = dedup_by_date (sort_key date recs)"
    using assms normalize_Inr by blast
  then have "sorted_wrt (<) (map date out)" by (simp add: dedup_sorted_strict)
  then show ?thesis
    using strict_sorted_iff by blast
qed

theorem normalize_sorted_unique_witness:
  "normalize exact_builtins (JArr [row_of 86400000 2, row_of 0 1, row_of 5 7]) =
     Inr [\<lparr>date = ''1970-01-01'', rhodl_ratio = 7, price = 0, timestamp_ms = 5\<rparr>,
          \<lparr>date = ''1970-01-02'', rhodl_ratio = 2, price = 0, timestamp_ms = 86400000\<rparr>] \<and>
   sorted (map date
     [\<lparr>date = ''1970-01-01'', rhodl_ratio = 7 :: rat, price = 0, timestamp_ms = 5\<rparr>,
      \<lparr>date = ''1970-01-02'', rhodl_ratio = 2, price = 0, timestamp_ms = 86400000\<rparr>]) \<and>
   distinct (map date
     [\<lparr>date = ''1970-01-01'', rhodl_ratio = 7 :: rat, price = 0, timestamp_ms = 5\<rparr>,
      \<lparr>date = ''1970-01-02'', rhodl_ratio = 2, price = 0, timestamp_ms = 86400000\<rparr>])"
proof -
  have h: "normalize exact_builtins (JArr [row_of 86400000 2, row_of 0 1, row_of 5 7]) =
     Inr [\<lparr>date = ''1970-01-01'', rhodl_ratio = 7, price = 0, timestamp_ms = 5\<rparr>,
          \<lparr>date = ''1970-01-02'', rhodl_ratio = 2, price = 0, timestamp_ms = 86400000\<rparr>]"
    by code_simp
  show ?thesis using h normalize_sorted_unique [OF h] by blast
qed

text \<open>
  Claim C2. Let \<open>recs\<close> be the records of the rows in input order (\<open>recs ! i\<close> comes from
  \<open>rows ! i\<close>). The output has exactly one record for each date that occurs among them,
  and the record it holds for a date is the last one of \<open>recs\<close> with that date: a later
  row overwrites an earlier row of the same UTC date.
\<close>

theorem normalize_keeps_last_row:
  assumes "normalize B (JArr rows) = Inr out" and "rows_records B rows = Inr recs"
  shows "length recs = length rows \<and>
         (\<forall>i<length rows. row_record B (rows ! i) = Inr (recs ! i)) \<and>
         date ` set out = date ` set recs \<and>
         length out = card (date ` set recs) \<and>
         (\<forall>r\<in>set out. r = last (filter (\<lambda>x. date x = date r) recs))"
proof -
  have out: "out = dedup_by_date (sort_key date recs)"
    using assms normalize_JArr by force
  have dates: "map date out = map fst (date_dict (sort_key date recs))"
    by (simp add: out dedup_dates)
  have s: "date ` set out = date ` set recs"
  proof -
    have "set (map date out) = date ` set (sort_key date recs)"
      by (simp only: dates date_dict_keys_set)
    then show ?thesis by simp
  qed
  have "distinct (map date out)" by (simp only: dates date_dict_distinct)
  then have "card (set (map date out)) = length (map date out)" by (rule distinct_card)
  then have l: "length out = card (date ` set recs)" using s by simp
  have m: "\<forall>r\<in>set out. r = last (filter (\<lambda>x. date x = date r) recs)"
  proof
    fix r assume "r \<in> set out"
    then obtain k where k: "k \<in> date ` set recs" and r: "r = last (filter (\<lambda>x. date x = k) recs)"
      using out dedup_sorted_member by blast
    from k have "filter (\<lambda>x. date x = k) recs \<noteq> []" by (auto simp: filter_empty_conv)
    then have "last (filter (\<lambda>x. date x = k) recs) \<in> set (filter (\<lambda>x. date x = k) recs)"
      by (rule last_in_set)
    then have "date r = k" using r by simp
    then show "r = last (filter (\<lambda>x. date x = date r) recs)" using r by simp
  qed
  show ?thesis using rows_records_nth [OF assms(2)] s l m by blast
qed

theorem normalize_keeps_last_row_witness:
  "normalize exact_builtins (JArr [row_of 0 1, row_of 86400000 2, row_of 5 7]) =
     Inr [\<lparr>date = ''1970-01-01'', rhodl_ratio = 7, price = 0, timestamp_ms = 5\<rparr>,
          \<lparr>date = ''1970-01-02'', rhodl_ratio = 2, price = 0, timestamp_ms = 86400000\<rparr>] \<and>
   rows_records exact_builtins [row_of 0 1, row_of 86400000 2, row_of 5 7] =
     Inr [\<lparr>date = ''1970-01-01'', rhodl_ratio = 1, price = 0, timestamp_ms = 0\<rparr>,
          \<lparr>date = ''1970-01-02'', rhodl_ratio = 2, price = 0, timestamp_ms = 86400000\<rparr>,
          \<lparr>date = ''1970-01-01'', rhodl_ratio = 7, price = 0, timestamp_ms = 5\<rparr>] \<and>
   last (filter (\<lambda>x. date x = ''1970-01-01'')
         [\<lparr>date = ''1970-01-01'', rhodl_ratio = 1 :: rat, price = 0, timestamp_ms = 0\<rparr>,
          \<lparr>date = ''1970-01-02'', rhodl_ratio = 2, price = 0, timestamp_ms = 86400000\<rparr>,
          \<lparr>date = ''1970-01-01'', rhodl_ratio = 7, price = 0, timestamp_ms = 5\<rparr>]) =
     \<lparr>date = ''1970-01-01'', rhodl_ratio = 7, price = 0, timestamp_ms = 5\<rparr>"
proof -
  have h1: "normalize exact_builtins (JArr [row_of 0 1, row_of 86400000 2, row_of 5 7]) =
     Inr [\<lparr>date = ''1970-01-01'', rhodl_ratio = 7, price = 0, timestamp_ms = 5\<rparr>,
          \<lparr>date = ''1970-01-02'', rhodl_ratio = 2, price = 0, timestamp_ms = 86400000\<rparr>]"
    by code_simp
  have h2: "rows_records exact_builtins [row_of 0 1, row_of 86400000 2, row_of 5 7] =
     Inr [\<lparr>date = ''1970-01-01'', rhodl_ratio = 1, price = 0, timestamp_ms = 0\<rparr>,
          \<lparr>date = ''1970-01-02'', rhodl_ratio = 2, price = 0, timestamp_ms = 86400000\<rparr>,
          \<lparr>date = ''1970-01-01'', rhodl_ratio = 7, price = 0, timestamp_ms = 5\<rparr>]"
    by code_simp
  show ?thesis using h1 h2 normalize_keeps_last_row [OF h1 h2] by simp
qed

section \<open>Rows, their records and their exceptions\<close>

lemma row_record_Inr:
  "row_record B row = Inr rec \<longleftrightarrow>
     row_timestamp B row = Inr (timestamp_ms rec) \<and>
     utc_date (timestamp_ms rec) = Inr (date rec) \<and>
     row_ratio B row = Inr (rhodl_ratio rec) \<and>
     row_price B row = Inr (price rec)"
  by (cases rec) (auto simp: row_record_def row_timestamp_def row_ratio_def row_price_def
        split: sum.splits)

lemma row_price_absent:
  "map_of kvs ''price'' = None \<Longrightarrow> row_price B (JObj kvs) = Inr 0"
  by (simp add: row_price_def)

lemma row_price_present:
  "map_of kvs ''price'' = Some pv \<Longrightarrow> row_price B (JObj kvs) = py_float B pv"
  by (simp add: row_price_def split: sum.splits)

lemma row_timestamp_dict:
  "row_timestamp B row = Inr ts \<Longrightarrow> \<exists>kvs tv. row = JObj kvs \<and> map_of kvs ''timestamp'' = Some tv \<and> py_int B tv = Inr ts"
  by (cases row) (auto simp: row_timestamp_def split: option.splits sum.splits)



lemma py_getitem_errors: "py_getitem row k = Inl e \<Longrightarrow> e \<in> {KeyError k, TypeError}"
  by (cases row) (auto split: option.splits)







lemma last_filter_nth:
  assumes "i < length xs" "P (xs ! i)" "\<forall>k. i < k \<and> k < length xs \<longrightarrow> \<not> P (xs ! k)"
  shows "last (filter P xs) = xs ! i"
proof -
  have xs: "xs = take i xs @ xs ! i # drop (Suc i) xs"
    using assms(1) by (rule id_take_nth_drop)
  have "filter P (drop (Suc i) xs) = []"
    using assms(3) by (auto simp: filter_empty_conv in_set_conv_nth)
  then have "filter P xs = filter P (take i xs) @ [xs ! i]"
    using assms(2) by (subst xs) simp
  then show ?thesis by simp
qed


lemma last_filter_index:
  "\<exists>x\<in>set xs. P x \<Longrightarrow>
     \<exists>j<length xs. last (filter P xs) = xs ! j \<and> P (xs ! j) \<and>
        (\<forall>k. j < k \<and> k < length xs \<longrightarrow> \<not> P (xs ! k))"
proof (induction xs rule: rev_induct)
  case Nil
  then show ?case by simp
next
  case (snoc x xs)
  show ?case
  proof (cases "P x")
    case True
    then have "last (filter P (xs @ [x])) = (xs @ [x]) ! length xs \<and> P ((xs @ [x]) ! length xs) \<and>
        (\<forall>k. length xs < k \<and> k < length (xs @ [x]) \<longrightarrow> \<not> P ((xs @ [x]) ! k))"
      by auto
    then show ?thesis by (intro exI [of _ "length xs"]) simp
  next
    case False
    then have "\<exists>x\<in>set xs. P x" using snoc.prems by auto
    then obtain j where j: "j < length xs" "last (filter P xs) = xs ! j" "P (xs ! j)"
      "\<forall>k. j < k \<and> k < length xs \<longrightarrow> \<not> P (xs ! k)"
      using snoc.IH by blast
    have "\<forall>k. j < k \<and> k < length (xs @ [x]) \<longrightarrow> \<not> P ((xs @ [x]) ! k)"
      using j(4) False by (auto simp: nth_append less_Suc_eq)
    moreover have "last (filter P (xs @ [x])) = (xs @ [x]) ! j" "P ((xs @ [x]) ! j)"
      using j False by (simp_all add: nth_append)
    ultimately show ?thesis using j(1) by (intro exI [of _ j]) simp
  qed
qed

text \<open>
  Claim C3, as amended. normalize does not keep a record for every row: of the rows of one
  UTC date only the last leaves its record. What holds is this. Every record of the
  output is the record built from some input row. Every input row builds a record whose
  \<open>timestamp_ms\<close> is \<^verbatim>\<open>int(row["timestamp"])\<close>, whose \<open>date\<close> is the UTC calendar date of
  that many epoch milliseconds, whose \<open>rhodl_ratio\<close> is \<^verbatim>\<open>float(row["rhodl_ratio"])\<close> and
  whose \<open>price\<close> is \<^verbatim>\<open>float(row.get("price", 0.0))\<close>, that is the converted
  \<^verbatim>\<open>price\<close> when the key is present and 0.0 when it is absent. That record is in the
  output whenever no later row has the same date. In every case the output holds, for the
  date of the row, the record built from the last row of that date and no other record of
  that date.
\<close>

theorem normalize_row_fields:
  assumes "normalize B (JArr rows) = Inr out"
  shows "(\<forall>rec\<in>set out. \<exists>i<length rows. row_record B (rows ! i) = Inr rec) \<and>
         (\<forall>i<length rows. \<exists>rec.
            row_record B (rows ! i) = Inr rec \<and>
            row_timestamp B (rows ! i) = Inr (timestamp_ms rec) \<and>
            utc_date (timestamp_ms rec) = Inr (date rec) \<and>
            row_ratio B (rows ! i) = Inr (rhodl_ratio rec) \<and>
            row_price B (rows ! i) = Inr (price rec) \<and>
            (\<forall>kvs. rows ! i = JObj kvs \<and> map_of kvs ''price'' = None \<longrightarrow> price rec = 0) \<and>
            (\<forall>kvs pv. rows ! i = JObj kvs \<and> map_of kvs ''price'' = Some pv
               \<longrightarrow> py_float B pv = Inr (price rec)) \<and>
            ((\<forall>k rec'. i < k \<and> k < length rows \<and> row_record B (rows ! k) = Inr rec'
                 \<longrightarrow> date rec' \<noteq> date rec)
               \<longrightarrow> rec \<in> set out) \<and>
            (\<exists>j r. i \<le> j \<and> j < length rows \<and> row_record B (rows ! j) = Inr r \<and>
               date r = date rec \<and>
               (\<forall>k rec'. j < k \<and> k < length rows \<and> row_record B (rows ! k) = Inr rec'
                  \<longrightarrow> date rec' \<noteq> date rec) \<and>
               r \<in> set out \<and> (\<forall>r'\<in>set out. date r' = date rec \<longrightarrow> r' = r)))"
proof -
  obtain recs where recs: "rows_records B rows = Inr recs"
    and out: "out = dedup_by_date (sort_key date recs)"
    using assms normalize_JArr by blast
  have len: "length recs = length rows"
    and nth: "\<forall>i<length rows. row_record B (rows ! i) = Inr (recs ! i)"
    using rows_records_nth [OF recs] by blast+
  have only: "r' = last (filter (\<lambda>x. date x = d) recs)"
    if r_out: "r' \<in> set out" and r_date: "date r' = d" for r' d
  proof -
    obtain k where k: "k \<in> date ` set recs" and r: "r' = last (filter (\<lambda>x. date x = k) recs)"
      using r_out out dedup_sorted_member by blast
    from k have "filter (\<lambda>x. date x = k) recs \<noteq> []" by (auto simp: filter_empty_conv)
    then have "last (filter (\<lambda>x. date x = k) recs) \<in> set (filter (\<lambda>x. date x = k) recs)"
      by (rule last_in_set)
    then have "date r' = k" using r by simp
    then show ?thesis using r r_date by simp
  qed
  have a: "\<forall>rec\<in>set out. \<exists>i<length rows. row_record B (rows ! i) = Inr rec"
  proof
    fix rec assume "rec \<in> set out"
    then obtain k where k: "k \<in> date ` set recs"
      and r: "rec = last (filter (\<lambda>x. date x = k) recs)"
      using out dedup_sorted_member by blast
    from k have "filter (\<lambda>x. date x = k) recs \<noteq> []" by (auto simp: filter_empty_conv)
    then have "last (filter (\<lambda>x. date x = k) recs) \<in> set (filter (\<lambda>x. date x = k) recs)"
      by (rule last_in_set)
    then have "rec \<in> set recs" using r by simp
    then obtain i where "i < length recs" "recs ! i = rec" by (auto simp: in_set_conv_nth)
    then show "\<exists>i<length rows. row_record B (rows ! i) = Inr rec" using len nth by auto
  qed
  have b: "\<exists>rec.
            row_record B (rows ! i) = Inr rec \<and>
            row_timestamp B (rows ! i) = Inr (timestamp_ms rec) \<and>
            utc_date (timestamp_ms rec) = Inr (date rec) \<and>
            row_ratio B (rows ! i) = Inr (rhodl_ratio rec) \<and>
            row_price B (rows ! i) = Inr (price rec) \<and>
            (\<forall>kvs. rows ! i = JObj kvs \<and> map_of kvs ''price'' = None \<longrightarrow> price rec = 0) \<and>
            (\<forall>kvs pv. rows ! i = JObj kvs \<and> map_of kvs ''price'' = Some pv
               \<longrightarrow> py_float B pv = Inr (price rec)) \<and>
            ((\<forall>k rec'. i < k \<and> k < length rows \<and> row_record B (rows ! k) = Inr rec'
                 \<longrightarrow> date rec' \<noteq> date rec)
               \<longrightarrow> rec \<in> set out) \<and>
            (\<exists>j r. i \<le> j \<and> j < length rows \<and> row_record B (rows ! j) = Inr r \<and>
               date r = date rec \<and>
               (\<forall>k rec'. j < k \<and> k < length rows \<and> row_record B (rows ! k) = Inr rec'
                  \<longrightarrow> date rec' \<noteq> date rec) \<and>
               r \<in> set out \<and> (\<forall>r'\<in>set out. date r' = date rec \<longrightarrow> r' = r))"
    if i: "i < length rows" for i
  proof -
    let ?d = "date (recs ! i)"
    let ?P = "\<lambda>x. date x = ?d"
    have rr: "row_record B (rows ! i) = Inr (recs ! i)" using nth i by simp
    have fields: "row_timestamp B (rows ! i) = Inr (timestamp_ms (recs ! i)) \<and>
            utc_date (timestamp_ms (recs ! i)) = Inr (date (recs ! i)) \<and>
            row_ratio B (rows ! i) = Inr (rhodl_ratio (recs ! i)) \<and>
            row_price B (rows ! i) = Inr (price (recs ! i))"
      using rr row_record_Inr [of B "rows ! i" "recs ! i"] by blast
    have p_absent: "\<forall>kvs. rows ! i = JObj kvs \<and> map_of kvs ''price'' = None
        \<longrightarrow> price (recs ! i) = 0"
      using fields by (auto simp: row_price_absent)
    have p_present: "\<forall>kvs pv. rows ! i = JObj kvs \<and> map_of kvs ''price'' = Some pv
        \<longrightarrow> py_float B pv = Inr (price (recs ! i))"
      using fields by (auto simp: row_price_present)
    have mem: "?d \<in> date ` set recs" using i len by auto
    have last_out: "last (filter ?P recs) \<in> set out"
      using mem out dedup_sorted_member by blast
    have last_in: "recs ! i \<in> set out"
      if later: "\<forall>k rec'. i < k \<and> k < length rows \<and> row_record B (rows ! k) = Inr rec'
                 \<longrightarrow> date rec' \<noteq> ?d"
    proof -
      have "\<forall>k. i < k \<and> k < length recs \<longrightarrow> \<not> date (recs ! k) = ?d"
        using later nth len by auto
      then have "last (filter ?P recs) = recs ! i"
        using i len by (intro last_filter_nth) auto
      then show ?thesis using last_out by simp
    qed
    have "\<exists>x\<in>set recs. ?P x" using i len by auto
    then obtain j where j: "j < length recs" "last (filter ?P recs) = recs ! j" "?P (recs ! j)"
      "\<forall>k. j < k \<and> k < length recs \<longrightarrow> \<not> ?P (recs ! k)"
      using last_filter_index [of recs ?P] by blast
    have ij: "i \<le> j"
    proof (rule ccontr)
      assume "\<not> i \<le> j"
      then have "j < i \<and> i < length recs" using i len by simp
      then have "\<not> ?P (recs ! i)" using j(4) by blast
      then show False by simp
    qed
    have rj: "row_record B (rows ! j) = Inr (recs ! j)" using nth j(1) len by simp
    have later_j: "\<forall>k rec'. j < k \<and> k < length rows \<and> row_record B (rows ! k) = Inr rec'
                  \<longrightarrow> date rec' \<noteq> ?d"
      using j(4) nth len by auto
    have in_out: "recs ! j \<in> set out" using last_out j(2) by simp
    have uniq: "\<forall>r'\<in>set out. date r' = ?d \<longrightarrow> r' = recs ! j"
    proof (intro ballI impI)
      fix r' assume "r' \<in> set out" "date r' = ?d"
      then have "r' = last (filter ?P recs)" by (rule only)
      then show "r' = recs ! j" using j(2) by simp
    qed
    have jlen: "j < length rows" using j(1) len by simp
    have last_part: "\<exists>j r. i \<le> j \<and> j < length rows \<and> row_record B (rows ! j) = Inr r \<and>
               date r = ?d \<and>
               (\<forall>k rec'. j < k \<and> k < length rows \<and> row_record B (rows ! k) = Inr rec'
                  \<longrightarrow> date rec' \<noteq> ?d) \<and>
               r \<in> set out \<and> (\<forall>r'\<in>set out. date r' = ?d \<longrightarrow> r' = r)"
      by (intro exI [of _ j] exI [of _ "recs ! j"] conjI ij jlen rj j(3) later_j in_out uniq)
    have imp: "(\<forall>k rec'. i < k \<and> k < length rows \<and> row_record B (rows ! k) = Inr rec'
                 \<longrightarrow> date rec' \<noteq> ?d) \<longrightarrow> recs ! i \<in> set out"
      using last_in by (rule impI)
    show ?thesis
      by (rule exI [of _ "recs ! i"]) (intro conjI rr fields [THEN conjunct1]
          fields [THEN conjunct2, THEN conjunct1]
          fields [THEN conjunct2, THEN conjunct2, THEN conjunct1]
          fields [THEN conjunct2, THEN conjunct2, THEN conjunct2] p_absent p_present imp
          last_part)
  qed
  show ?thesis
  proof (rule conjI)
    show "\<forall>rec\<in>set out. \<exists>i<length rows. row_record B (rows ! i) = Inr rec" by (rule a)
  next
    show "\<forall>i<length rows. \<exists>rec.
            row_record B (rows ! i) = Inr rec \<and>
            row_timestamp B (rows ! i) = Inr (timestamp_ms rec) \<and>
            utc_date (timestamp_ms rec) = Inr (date rec) \<and>
            row_ratio B (rows ! i) = Inr (rhodl_ratio rec) \<and>
            row_price B (rows ! i) = Inr (price rec) \<and>
            (\<forall>kvs. rows ! i = JObj kvs \<and> map_of kvs ''price'' = None \<longrightarrow> price rec = 0) \<and>
            (\<forall>kvs pv. rows ! i = JObj kvs \<and> map_of kvs ''price'' = Some pv
               \<longrightarrow> py_float B pv = Inr (price rec)) \<and>
            ((\<forall>k rec'. i < k \<and> k < length rows \<and> row_record B (rows ! k) = Inr rec'
                 \<longrightarrow> date rec' \<noteq> date rec)
               \<longrightarrow> rec \<in> set out) \<and>
            (\<exists>j r. i \<le> j \<and> j < length rows \<and> row_record B (rows ! j) = Inr r \<and>
               date r = date rec \<and>
               (\<forall>k rec'. j < k \<and> k < length rows \<and> row_record B (rows ! k) = Inr rec'
                  \<longrightarrow> date rec' \<noteq> date rec) \<and>
               r \<in> set out \<and> (\<forall>r'\<in>set out. date r' = date rec \<longrightarrow> r' = r))"
      using b by (intro allI impI)
  qed
qed

theorem normalize_row_fields_counterexample:
  "row_record exact_builtins (row_of 0 1) =
     Inr \<lparr>date = ''1970-01-01'', rhodl_ratio = 1, price = 0, timestamp_ms = 0\<rparr> \<and>
   normalize exact_builtins (JArr [row_of 0 1, row_of 1 2]) =
     Inr [\<lparr>date = ''1970-01-01'', rhodl_ratio = 2, price = 0, timestamp_ms = 1\<rparr>] \<and>
   0 \<notin> set (map timestamp_ms
     [\<lparr>date = ''1970-01-01'', rhodl_ratio = 2 :: rat, price = 0, timestamp_ms = 1\<rparr>])"
  by code_simp







theorem normalize_row_fields_witness:
  "normalize exact_builtins (JArr [row_of 0 1, row_of 86400000 2, row_of 5 7]) =
     Inr [\<lparr>date = ''1970-01-01'', rhodl_ratio = 7, price = 0, timestamp_ms = 5\<rparr>,
          \<lparr>date = ''1970-01-02'', rhodl_ratio = 2, price = 0, timestamp_ms = 86400000\<rparr>] \<and>
   (\<exists>i<length [row_of 0 1, row_of 86400000 2, row_of 5 7].
      row_record exact_builtins ([row_of 0 1, row_of 86400000 2, row_of 5 7] ! i) =
        Inr \<lparr>date = ''1970-01-01'', rhodl_ratio = 7, price = 0, timestamp_ms = 5\<rparr>)"
proof -
  have h: "normalize exact_builtins (JArr [row_of 0 1, row_of 86400000 2, row_of 5 7]) =
     Inr [\<lparr>date = ''1970-01-01'', rhodl_ratio = 7, price = 0, timestamp_ms = 5\<rparr>,
          \<lparr>date = ''1970-01-02'', rhodl_ratio = 2, price = 0, timestamp_ms = 86400000\<rparr>]"
    by code_simp
  have "\<forall>rec\<in>set [\<lparr>date = ''1970-01-01'', rhodl_ratio = 7, price = 0, timestamp_ms = 5\<rparr>,
          \<lparr>date = ''1970-01-02'', rhodl_ratio = 2, price = 0, timestamp_ms = 86400000\<rparr>].
      \<exists>i<length [row_of 0 1, row_of 86400000 2, row_of 5 7].
        row_record exact_builtins ([row_of 0 1, row_of 86400000 2, row_of 5 7] ! i) = Inr rec"
    by (rule normalize_row_fields [OF h, THEN conjunct1])
  then show ?thesis using h by simp
qed


section \<open>Properties of fetch_rhodl_json\<close>

lemma upto_1_3: "[1..3::int] = [1, 2, 3]"
  by (simp add: upto.simps)

lemma fetch_attempts_gets:
  "length (filter is_Get (snd (fetch_attempts http m as last_err tr))) \<le>
     length (filter is_Get tr) + length as"
proof (induction as arbitrary: last_err tr)
  case Nil
  show ?case by simp
next
  case (Cons a as)
  show ?case
  proof (cases "http a")
    case (Inr doc)
    then show ?thesis by simp
  next
    case (Inl err)
    show ?thesis
    proof (cases err)
      case (RequestException e)
      have "length (filter is_Get (snd (fetch_attempts http m as (Some e)
               (if a < m then tr @ [Get a, Sleep (3 / 2 * of_int a)] else tr @ [Get a]))))
            \<le> length (filter is_Get
               (if a < m then tr @ [Get a, Sleep (3 / 2 * of_int a)] else tr @ [Get a])) + length as"
        by (rule Cons.IH)
      then show ?thesis using Inl RequestException by (simp split: if_splits)
    qed (use Inl in simp_all)
  qed
qed

text \<open>
  Claim C4. With the default of 3 retries, fetch performs at most three GETs. When an
  attempt succeeds (the first, or a later one after failures of the kind the loop catches)
  it returns the parsed document and makes no further attempt; having slept
  1.5 times the attempt number seconds after each failed attempt before it. When all
  three attempts fail it ends the process with SystemExit, the message naming the error of
  the third attempt, having slept 1.5 s after the first and 3 s after the second failure
  and not after the third.
\<close>

theorem fetch_three_attempts:
  "length (filter is_Get (snd (fetch_rhodl_json http 3))) \<le> 3 \<and>
   (http 1 = Inr doc \<longrightarrow> fetch_rhodl_json http 3 = (Inr doc, [Get 1])) \<and>
   (http 1 = Inl (RequestException e1) \<and> http 2 = Inr doc \<longrightarrow>
      fetch_rhodl_json http 3 = (Inr doc, [Get 1, Sleep (3 / 2), Get 2])) \<and>
   (http 1 = Inl (RequestException e1) \<and> http 2 = Inl (RequestException e2) \<and> http 3 = Inr doc \<longrightarrow>
      fetch_rhodl_json http 3 = (Inr doc, [Get 1, Sleep (3 / 2), Get 2, Sleep 3, Get 3])) \<and>
   (http 1 = Inl (RequestException e1) \<and> http 2 = Inl (RequestException e2) \<and>
    http 3 = Inl (RequestException e3) \<longrightarrow>
      fetch_rhodl_json http 3 =
        (Inl (SystemExit (''ERROR: API request failed after 3 attempts: '' @ e3)),
         [Get 1, Sleep (3 / 2), Get 2, Sleep 3, Get 3]))"
proof -
  have s3: "show_int 3 = ''3''"
    by (simp add: show_int_def show_nat.simps digit_char_def)
  have "length (filter is_Get (snd (fetch_attempts http 3 [1, 2, 3] None []))) \<le>
      length (filter is_Get ([] :: event list)) + length [1, 2, 3 :: int]"
    by (rule fetch_attempts_gets)
  then have a: "length (filter is_Get (snd (fetch_rhodl_json http 3))) \<le> 3"
    by (simp add: fetch_rhodl_json_def upto_1_3)
  show ?thesis using a
    by (simp add: fetch_rhodl_json_def upto_1_3 fetch_failed_message_def s3)
qed

theorem fetch_three_attempts_witness:
  "fetch_rhodl_json (\<lambda>k. if k = 2 then Inr (JObj []) else Inl (RequestException ''timeout'')) 3 =
     (Inr (JObj [] :: rat json), [Get 1, Sleep (3 / 2), Get 2]) \<and>
   fetch_rhodl_json (\<lambda>k. if k = 3 then Inl (RequestException ''last'') else
       Inl (RequestException ''timeout'') :: error + rat json) 3 =
     (Inl (SystemExit ''ERROR: API request failed after 3 attempts: last''),
      [Get 1, Sleep (3 / 2), Get 2, Sleep 3, Get 3])"
proof -
  let ?h1 = "\<lambda>k::int. if k = 2 then Inr (JObj []) else Inl (RequestException ''timeout'') :: error + rat json"
  let ?h2 = "\<lambda>k::int. if k = 3 then Inl (RequestException ''last'') else
       Inl (RequestException ''timeout'') :: error + rat json"
  have a: "?h1 1 = Inl (RequestException ''timeout'') \<and> ?h1 2 = Inr (JObj [])" by simp
  have b: "?h2 1 = Inl (RequestException ''timeout'') \<and> ?h2 2 = Inl (RequestException ''timeout'') \<and>
           ?h2 3 = Inl (RequestException ''last'')" by simp
  show ?thesis
    using a b fetch_three_attempts [of ?h1 "JObj []" "''timeout''" "''timeout''" "''x''"]
      fetch_three_attempts [of ?h2 "JObj []" "''timeout''" "''timeout''" "''last''"]
    by simp
qed

section \<open>Properties of the worksheet operations and the sinks\<close>

lemma length_clear_range: "length (clear_range g ws) = length ws"
  by (simp add: clear_range_def)

lemma cell_at_clear_range:
  "cell_at (clear_range g ws) r c = (if in_range g r c then Blank else cell_at ws r c)"
  by (auto simp: cell_at_def clear_range_def)

lemma cell_at_beyond_width: "row_width ws r \<le> c \<Longrightarrow> cell_at ws r c = Blank"
  by (auto simp: cell_at_def row_width_def split: if_splits)

lemma cell_at_beyond_length: "length ws \<le> r \<Longrightarrow> cell_at ws r c = Blank"
  by (simp add: cell_at_def)

lemma length_write_block:
  "length (write_block r0 c0 vals ws) = max (length ws) (r0 + length vals)"
  by (simp add: write_block_def)

lemma cell_at_write_block:
  "cell_at (write_block r0 c0 vals ws) r c =
     (if in_block r0 c0 vals r c then vals ! (r - r0) ! (c - c0) else cell_at ws r c)"
proof (cases "r < max (length ws) (r0 + length vals)")
  case False
  then have "\<not> in_block r0 c0 vals r c" and "cell_at ws r c = Blank"
    by (auto simp: in_block_def cell_at_def)
  then show ?thesis using False by (simp add: cell_at_def write_block_def)
next
  case r: True
  show ?thesis
  proof (cases "c < max (row_width ws r) (block_width r0 c0 vals r)")
    case False
    then have "\<not> in_block r0 c0 vals r c" and "cell_at ws r c = Blank"
      by (auto simp: in_block_def block_width_def cell_at_beyond_width split: if_splits)
    then show ?thesis using False r by (simp add: cell_at_def write_block_def)
  next
    case True
    then show ?thesis using r by (simp add: cell_at_def write_block_def)
  qed
qed

lemma in_range_cols_ab_primary [simp]:
  "in_range \<lparr>startRowIndex = None, endRowIndex = None,
        startColumnIndex = Some 0, endColumnIndex = Some 2\<rparr> r c \<longleftrightarrow> c < 2"
  by (simp add: in_range_def in_bounds_def)

lemma in_range_cols_ab_fallback [simp]:
  "in_range \<lparr>startRowIndex = Some 0, endRowIndex = None,
        startColumnIndex = Some 0, endColumnIndex = Some 2\<rparr> r c \<longleftrightarrow> c < 2"
  by (simp add: in_range_def in_bounds_def)

lemma clear_ab_same: "clear_ab_primary ws = clear_ab_fallback ws"
  by (simp add: clear_ab_primary_def clear_ab_fallback_def batch_clear_def update_cells_clear_def
        clear_range_def)

lemma cell_at_clear_ab_primary:
  "cell_at (clear_ab_primary ws) r c = (if c < 2 then Blank else cell_at ws r c)"
  by (simp add: clear_ab_primary_def batch_clear_def cell_at_clear_range)

lemma cell_at_clear_ab_fallback:
  "cell_at (clear_ab_fallback ws) r c = (if c < 2 then Blank else cell_at ws r c)"
  by (simp add: clear_ab_fallback_def update_cells_clear_def cell_at_clear_range)

lemma map_length_clear_range: "map length (clear_range g ws) = map length ws"
  by (rule nth_equalityI) (simp_all add: clear_range_def)

text \<open>
  Claim C9. The batch clear of \<^verbatim>\<open>A:B\<close> and the fallback \<^verbatim>\<open>updateCells\<close> request (columns
  0 and 1, rows from 0 with no end) give the same worksheet from the same worksheet: every
  cell of columns A and B is blank afterwards, in all rows, every other cell is as it was,
  and the grid keeps its shape.
\<close>

theorem clear_paths_equivalent:
  "clear_ab_primary ws = clear_ab_fallback ws \<and>
   (\<forall>r c. cell_at (clear_ab_primary ws) r c = (if c < 2 then Blank else cell_at ws r c)) \<and>
   (\<forall>r c. cell_at (clear_ab_fallback ws) r c = (if c < 2 then Blank else cell_at ws r c)) \<and>
   map length (clear_ab_primary ws) = map length ws"
proof (intro conjI allI)
  show "clear_ab_primary ws = clear_ab_fallback ws" by (rule clear_ab_same)
  show "cell_at (clear_ab_primary ws) r c = (if c < 2 then Blank else cell_at ws r c)" for r c
    by (rule cell_at_clear_ab_primary)
  show "cell_at (clear_ab_fallback ws) r c = (if c < 2 then Blank else cell_at ws r c)" for r c
    by (rule cell_at_clear_ab_fallback)
  show "map length (clear_ab_primary ws) = map length ws"
    by (simp add: clear_ab_primary_def batch_clear_def map_length_clear_range)
qed

lemma take_2_sheet_row: "take 2 (sheet_row x) = sheet_row x"
  by (simp add: sheet_row_def)

lemma take_2_header_row: "take 2 header_row = header_row"
  by (simp add: header_row_def)

lemma sheet_rows_take:
  "map (take 2) (take (Suc (length records)) (header_row # map sheet_row records)) =
     header_row # map sheet_row records"
  by (simp add: take_2_sheet_row take_2_header_row)

lemma ws_update_cells_ab:
  "ws_update (Cells 1 1 2 n) vals ws = write_block 0 0 (map (take 2) (take n vals)) ws"
  by simp

lemma overwrite_eq:
  "write_cols_ab_overwrite hb ws records =
     write_block 0 0 (header_row # map sheet_row records) (clear_ab_primary ws)"
  by (simp only: write_cols_ab_overwrite_def Let_def ws_update_cells_ab length_Cons length_map
        sheet_rows_take clear_ab_same if_cancel)

lemma in_block_overwrite:
  "in_block 0 0 (header_row # map sheet_row records) r c \<longleftrightarrow> r \<le> length records \<and> c < 2"
  by (cases r) (auto simp: in_block_def header_row_def sheet_row_def)

text \<open>
  Claim C5. Overwrite mode, with either clearing path: after it, a cell outside columns A
  and B holds what it held before; row 1 of columns A and B is the header; the rows below
  hold one (date, value) pair per record, in order; columns A and B are blank below the
  last record.
\<close>

theorem overwrite_frame:
  "(\<forall>r c. cell_at (write_cols_ab_overwrite hb ws records) r c =
      (if 2 \<le> c then cell_at ws r c
       else if length records < r then Blank
       else (header_row # map sheet_row records) ! r ! c)) \<and>
   cell_at (write_cols_ab_overwrite hb ws records) 0 0 = Text ''Date'' \<and>
   cell_at (write_cols_ab_overwrite hb ws records) 0 1 = Text ''RHODL Ratio'' \<and>
   (\<forall>i<length records.
      cell_at (write_cols_ab_overwrite hb ws records) (Suc i) 0 = Text (date (records ! i)) \<and>
      cell_at (write_cols_ab_overwrite hb ws records) (Suc i) 1 = Number (rhodl_ratio (records ! i))) \<and>
   (\<forall>r c. 2 \<le> c \<longrightarrow> cell_at (write_cols_ab_overwrite hb ws records) r c = cell_at ws r c) \<and>
   (\<forall>r c. length records < r \<and> c < 2 \<longrightarrow> cell_at (write_cols_ab_overwrite hb ws records) r c = Blank)"
proof -
  have cell: "cell_at (write_cols_ab_overwrite hb ws records) r c =
      (if 2 \<le> c then cell_at ws r c
       else if length records < r then Blank
       else (header_row # map sheet_row records) ! r ! c)" for r c
    by (auto simp: overwrite_eq cell_at_write_block in_block_overwrite cell_at_clear_ab_primary)
  have h0: "cell_at (write_cols_ab_overwrite hb ws records) 0 0 = Text ''Date''"
    and h1: "cell_at (write_cols_ab_overwrite hb ws records) 0 1 = Text ''RHODL Ratio''"
    by (simp_all add: cell header_row_def)
  have rows: "\<forall>i<length records.
      cell_at (write_cols_ab_overwrite hb ws records) (Suc i) 0 = Text (date (records ! i)) \<and>
      cell_at (write_cols_ab_overwrite hb ws records) (Suc i) 1 = Number (rhodl_ratio (records ! i))"
    by (simp add: cell sheet_row_def)
  show ?thesis using cell h0 h1 rows by simp
qed

lemma rstrip_snoc: "rstrip P (xs @ [x]) = (if P x then rstrip P xs else xs @ [x])"
  by (simp add: rstrip_def)

lemma rstrip_Nil: "rstrip P [] = []"
  by (simp add: rstrip_def)

lemma length_rstrip_le: "length (rstrip P xs) \<le> length xs"
  using length_dropWhile_le [of P "rev xs"] by (simp add: rstrip_def)

lemma rstrip_take:
  "rstrip P xs = take (length (rstrip P xs)) xs \<and>
   (\<forall>i. length (rstrip P xs) \<le> i \<and> i < length xs \<longrightarrow> P (xs ! i))"
proof (induction xs rule: rev_induct)
  case Nil
  show ?case by (simp add: rstrip_Nil)
next
  case (snoc x xs)
  show ?case
  proof (cases "P x")
    case False
    then show ?thesis by (auto simp: rstrip_snoc)
  next
    case True
    have len: "length (rstrip P xs) \<le> length xs"
      by (rule length_rstrip_le)
    have "rstrip P xs = take (length (rstrip P xs)) (xs @ [x])"
      using snoc len by simp
    moreover have "\<forall>i. length (rstrip P xs) \<le> i \<and> i < length (xs @ [x]) \<longrightarrow> P ((xs @ [x]) ! i)"
      using snoc True by (auto simp: nth_append less_Suc_eq)
    ultimately show ?thesis using True by (simp add: rstrip_snoc)
  qed
qed

lemma rstrip_empty_iff: "rstrip P xs = [] \<longleftrightarrow> (\<forall>x\<in>set xs. P x)"
  by (induction xs rule: rev_induct) (auto simp: rstrip_snoc rstrip_Nil)

lemma filter_tl_rstrip:
  "filter (\<lambda>x. \<not> P x) (tl (rstrip P xs)) = filter (\<lambda>x. \<not> P x) (tl xs)"
proof (induction xs rule: rev_induct)
  case Nil
  show ?case by (simp add: rstrip_Nil)
next
  case (snoc x xs)
  show ?case
  proof (cases "P x")
    case False
    then show ?thesis by (simp add: rstrip_snoc)
  next
    case True
    then show ?thesis using snoc by (cases xs) (simp_all add: rstrip_def)
  qed
qed

lemma existing_dates_eq: "existing_dates xs = filter (\<lambda>x. x \<noteq> []) (tl xs)"
  by (simp add: existing_dates_def)

lemma set_tl_nth: "set (tl xs) = {xs ! i | i. 1 \<le> i \<and> i < length xs}"
proof (cases xs)
  case Nil
  then show ?thesis by simp
next
  case (Cons y ys)
  have "set ys = {ys ! j | j. j < length ys}" by (auto simp: set_conv_nth)
  also have "\<dots> = {(y # ys) ! i | i. 1 \<le> i \<and> i < length (y # ys)}"
  proof (intro set_eqI iffI)
    fix v assume "v \<in> {ys ! j | j. j < length ys}"
    then obtain j where "j < length ys" "v = ys ! j" by blast
    then have "1 \<le> Suc j \<and> Suc j < length (y # ys) \<and> v = (y # ys) ! Suc j" by simp
    then show "v \<in> {(y # ys) ! i | i. 1 \<le> i \<and> i < length (y # ys)}" by blast
  next
    fix v assume "v \<in> {(y # ys) ! i | i. 1 \<le> i \<and> i < length (y # ys)}"
    then obtain i where i: "1 \<le> i" "i < length (y # ys)" "v = (y # ys) ! i" by blast
    then obtain j where "i = Suc j" by (cases i) auto
    then have "j < length ys \<and> v = ys ! j" using i by simp
    then show "v \<in> {ys ! j | j. j < length ys}" by blast
  qed
  finally show ?thesis using Cons by simp
qed

lemma present_dates_set:
  "set (existing_dates (col_values disp 1 ws)) =
     {s. s \<noteq> [] \<and> (\<exists>r. 1 \<le> r \<and> r < length ws \<and> display disp (cell_at ws r 0) = s)}"
proof -
  let ?col = "map (\<lambda>r. display disp (cell_at ws r 0)) [0..<length ws]"
  have "existing_dates (col_values disp 1 ws) = filter (\<lambda>x. \<not> x = []) (tl ?col)"
    using filter_tl_rstrip [of "\<lambda>s. s = []" ?col]
    by (simp add: existing_dates_eq col_values_def)
  then have "set (existing_dates (col_values disp 1 ws)) = {s \<in> set (tl ?col). s \<noteq> []}"
    by simp
  also have "\<dots> = {s. s \<noteq> [] \<and> (\<exists>r. 1 \<le> r \<and> r < length ws \<and> display disp (cell_at ws r 0) = s)}"
  proof (intro set_eqI iffI)
    fix s assume "s \<in> {s \<in> set (tl ?col). s \<noteq> []}"
    then obtain i where "s \<noteq> []" "1 \<le> i" "i < length ?col" "s = ?col ! i"
      by (auto simp: set_tl_nth)
    then have "s \<noteq> [] \<and> 1 \<le> i \<and> i < length ws \<and> display disp (cell_at ws i 0) = s"
      by simp
    then show "s \<in> {s. s \<noteq> [] \<and> (\<exists>r. 1 \<le> r \<and> r < length ws \<and> display disp (cell_at ws r 0) = s)}"
      by blast
  next
    fix s assume "s \<in> {s. s \<noteq> [] \<and> (\<exists>r. 1 \<le> r \<and> r < length ws \<and> display disp (cell_at ws r 0) = s)}"
    then obtain r where r: "s \<noteq> []" "1 \<le> r" "r < length ws" "display disp (cell_at ws r 0) = s"
      by blast
    then have "s = ?col ! r \<and> 1 \<le> r \<and> r < length ?col" by simp
    then have "s \<in> set (tl ?col)" unfolding set_tl_nth by blast
    then show "s \<in> {s \<in> set (tl ?col). s \<noteq> []}" using r(1) by simp
  qed
  finally show ?thesis .
qed

lemma col_values_empty_iff:
  "col_values disp 1 ws = [] \<longleftrightarrow> (\<forall>r<length ws. display disp (cell_at ws r 0) = [])"
  by (auto simp: col_values_def rstrip_empty_iff)

lemma row_blank_cell: "r < length ws \<Longrightarrow> row_blank (ws ! r) \<Longrightarrow> cell_at ws r c = Blank"
  by (auto simp: cell_at_def row_blank_def list_all_length)

lemma used_rows_le: "used_rows ws \<le> length ws"
  unfolding used_rows_def by (rule length_rstrip_le)

lemma beyond_used_rows: "used_rows ws \<le> r \<Longrightarrow> cell_at ws r c = Blank"
proof (cases "r < length ws")
  case False
  then show ?thesis by (simp add: cell_at_beyond_length)
next
  case True
  assume "used_rows ws \<le> r"
  then have "row_blank (ws ! r)"
    using True rstrip_take [of row_blank ws] by (simp add: used_rows_def)
  then show ?thesis using True by (rule row_blank_cell [rotated])
qed

lemma nonblank_used_rows: "cell_at ws r c \<noteq> Blank \<Longrightarrow> r < used_rows ws"
  using beyond_used_rows [of ws r c] by (cases "r < used_rows ws") auto

lemma display_nonempty_nonblank: "display disp v \<noteq> [] \<Longrightarrow> v \<noteq> Blank"
  by (cases v) auto

lemma in_block_rows:
  "in_block n0 0 (map sheet_row new) r c \<longleftrightarrow> n0 \<le> r \<and> r < n0 + length new \<and> c < 2"
  by (auto simp: in_block_def sheet_row_def)

lemma cell_at_append_rows:
  "cell_at (append_rows (map sheet_row new) ws) r c =
     (if used_rows ws \<le> r \<and> r < used_rows ws + length new \<and> c < 2
      then sheet_row (new ! (r - used_rows ws)) ! c else cell_at ws r c)"
  by (auto simp: append_rows_def cell_at_write_block in_block_rows)

lemma length_append_rows:
  "length (append_rows vals ws) = max (length ws) (used_rows ws + length vals)"
  by (simp add: append_rows_def length_write_block)

lemma cell_at_header_update:
  "cell_at (ws_update (Cells 1 1 2 1) [header_row] ws) r c =
     (if r = 0 \<and> c < 2 then header_row ! c else cell_at ws r c)"
  by (auto simp: cell_at_write_block in_block_def header_row_def)

lemma append_only_result:
  "append_only_cols_ab disp ws records =
     (let ws1 = (if col_values disp 1 ws = [] then ws_update (Cells 1 1 2 1) [header_row] ws else ws);
          new = filter (\<lambda>r. date r \<notin> set (existing_dates (col_values disp 1 ws))) records
      in (if new \<noteq> [] then append_rows (map sheet_row new) ws1 else ws1, length new))"
  by (simp add: append_only_cols_ab_def Let_def)

text \<open>
  Claim C6. Append mode. The dates taken as present are the non-empty strings column A
  shows below its first cell; when column A shows nothing at all the header is written to
  A1:B1 first. The records appended are exactly the input records whose date is not among
  them, in input order, one per row from the first row below all data of the sheet; no
  other cell changes; the number returned is the number of rows appended.
\<close>

theorem append_only_adds_missing:
  assumes run: "append_only_cols_ab disp ws records = (ws2, n)"
    and present: "present = existing_dates (col_values disp 1 ws)"
    and new: "new = filter (\<lambda>r. date r \<notin> set present) records"
    and ws1: "ws1 = (if col_values disp 1 ws = [] then ws_update (Cells 1 1 2 1) [header_row] ws
                     else ws)"
  shows "set present =
           {s. s \<noteq> [] \<and> (\<exists>r. 1 \<le> r \<and> r < length ws \<and> display disp (cell_at ws r 0) = s)} \<and>
         (col_values disp 1 ws = [] \<longleftrightarrow> (\<forall>r<length ws. display disp (cell_at ws r 0) = [])) \<and>
         (\<forall>r c. cell_at ws1 r c =
            (if col_values disp 1 ws = [] \<and> r = 0 \<and> c < 2 then header_row ! c else cell_at ws r c)) \<and>
         n = length new \<and>
         (\<forall>i<length new.
            cell_at ws2 (used_rows ws1 + i) 0 = Text (date (new ! i)) \<and>
            cell_at ws2 (used_rows ws1 + i) 1 = Number (rhodl_ratio (new ! i))) \<and>
         (\<forall>r c. \<not> (used_rows ws1 \<le> r \<and> r < used_rows ws1 + length new \<and> c < 2)
            \<longrightarrow> cell_at ws2 r c = cell_at ws1 r c) \<and>
         (\<forall>r c. used_rows ws1 \<le> r \<longrightarrow> cell_at ws1 r c = Blank)"
proof -
  have p: "set present =
           {s. s \<noteq> [] \<and> (\<exists>r. 1 \<le> r \<and> r < length ws \<and> display disp (cell_at ws r 0) = s)}"
    unfolding present by (rule present_dates_set)
  have e: "col_values disp 1 ws = [] \<longleftrightarrow> (\<forall>r<length ws. display disp (cell_at ws r 0) = [])"
    by (rule col_values_empty_iff)
  have h: "\<forall>r c. cell_at ws1 r c =
            (if col_values disp 1 ws = [] \<and> r = 0 \<and> c < 2 then header_row ! c else cell_at ws r c)"
  proof (cases "col_values disp 1 ws = []")
    case True
    then have "ws1 = ws_update (Cells 1 1 2 1) [header_row] ws" using ws1
      by (simp del: One_nat_def ws_update.simps)
    then show ?thesis using True
      by (simp add: cell_at_header_update del: One_nat_def ws_update.simps)
  next
    case False
    then have "ws1 = ws" using ws1 by (simp del: One_nat_def ws_update.simps)
    then show ?thesis using False by (simp del: One_nat_def)
  qed
  have res: "ws2 = (if new \<noteq> [] then append_rows (map sheet_row new) ws1 else ws1)"
    and n: "n = length new"
    using run unfolding append_only_result Let_def new present ws1
    by (auto simp del: One_nat_def ws_update.simps)
  have cells: "cell_at ws2 r c =
     (if used_rows ws1 \<le> r \<and> r < used_rows ws1 + length new \<and> c < 2
      then sheet_row (new ! (r - used_rows ws1)) ! c else cell_at ws1 r c)" for r c
    unfolding res by (auto simp: cell_at_append_rows)
  have rows: "\<forall>i<length new.
            cell_at ws2 (used_rows ws1 + i) 0 = Text (date (new ! i)) \<and>
            cell_at ws2 (used_rows ws1 + i) 1 = Number (rhodl_ratio (new ! i))"
    by (simp add: cells sheet_row_def)
  have frame: "\<forall>r c. \<not> (used_rows ws1 \<le> r \<and> r < used_rows ws1 + length new \<and> c < 2)
            \<longrightarrow> cell_at ws2 r c = cell_at ws1 r c"
    by (simp add: cells)
  have tail: "\<forall>r c. used_rows ws1 \<le> r \<longrightarrow> cell_at ws1 r c = Blank"
    by (simp add: beyond_used_rows)
  show ?thesis using p e h n rows frame tail by blast
qed

text \<open>The records normalize returns all carry a ten-character date, so none is empty.\<close>

lemma length_isoformat: "length (isoformat ymd) = 10"
  by (cases ymd) (simp add: isoformat_def pad4_def pad2_def)

lemma utc_date_length: "utc_date ts = Inr d \<Longrightarrow> length d = 10"
  by (auto simp: utc_date_def Let_def length_isoformat split: if_splits)

lemma dedup_subset: "set (dedup_by_date (sort_key date recs)) \<subseteq> set recs"
proof
  fix r assume "r \<in> set (dedup_by_date (sort_key date recs))"
  then obtain k where k: "k \<in> date ` set recs" and r: "r = last (filter (\<lambda>x. date x = k) recs)"
    using dedup_sorted_member by blast
  from k have "filter (\<lambda>x. date x = k) recs \<noteq> []" by (auto simp: filter_empty_conv)
  then have "last (filter (\<lambda>x. date x = k) recs) \<in> set (filter (\<lambda>x. date x = k) recs)"
    by (rule last_in_set)
  then show "r \<in> set recs" using r by simp
qed

lemma normalize_dates_nonempty:
  assumes "normalize B records = Inr out"
  shows "\<forall>r\<in>set out. length (date r) = 10 \<and> date r \<noteq> []"
proof
  fix r assume r: "r \<in> set out"
  obtain rows recs where recs: "rows_records B rows = Inr recs"
    and out: "out = dedup_by_date (sort_key date recs)"
    using assms by (auto simp: normalize_def split: sum.splits)
  have "r \<in> set recs" using r out dedup_subset by blast
  then obtain i where "i < length recs" "recs ! i = r" by (auto simp: in_set_conv_nth)
  then have "row_record B (rows ! i) = Inr r" using rows_records_nth [OF recs] by auto
  then have "utc_date (timestamp_ms r) = Inr (date r)" by (simp add: row_record_Inr)
  then have "length (date r) = 10" by (rule utc_date_length)
  then show "length (date r) = 10 \<and> date r \<noteq> []" by auto
qed

text \<open>
  Claim C7. Append mode is idempotent on a sheet whose date column is not empty: a second
  run with the same records appends nothing, returns 0 and leaves the worksheet as the
  first run left it. A record carries a calendar date, so no date is the empty string
  (\<open>normalize_dates_nonempty\<close> for the records the pipeline passes in).
\<close>

theorem append_only_idempotent:
  assumes nonempty: "col_values disp 1 ws \<noteq> []"
    and dates: "\<forall>r\<in>set records. date r \<noteq> []"
    and run: "append_only_cols_ab disp ws records = (ws', n)"
  shows "append_only_cols_ab disp ws' records = (ws', 0)"
proof -
  define new where "new = filter (\<lambda>r. date r \<notin> set (existing_dates (col_values disp 1 ws))) records"
  have ws': "ws' = (if new \<noteq> [] then append_rows (map sheet_row new) ws else ws)"
    using run nonempty unfolding append_only_result Let_def new_def
    by (auto simp del: One_nat_def ws_update.simps)
  have cells: "cell_at ws' r c =
     (if used_rows ws \<le> r \<and> r < used_rows ws + length new \<and> c < 2
      then sheet_row (new ! (r - used_rows ws)) ! c else cell_at ws r c)" for r c
    unfolding ws' by (auto simp: cell_at_append_rows)
  have len: "length ws' = max (length ws) (used_rows ws + length new)"
    unfolding ws' using used_rows_le [of ws] by (simp add: length_append_rows)
  obtain r0 where r0: "r0 < length ws" "display disp (cell_at ws r0 0) \<noteq> []"
    using nonempty unfolding col_values_empty_iff by blast
  then have "cell_at ws r0 0 \<noteq> Blank" by (auto dest: display_nonempty_nonblank)
  then have r0_used: "r0 < used_rows ws" by (rule nonblank_used_rows)
  then have used_pos: "1 \<le> used_rows ws" by simp
  have kept: "cell_at ws' r 0 = cell_at ws r 0" if "display disp (cell_at ws r 0) \<noteq> []" for r
  proof -
    have "cell_at ws r 0 \<noteq> Blank" using that by (auto dest: display_nonempty_nonblank)
    then have "r < used_rows ws" by (rule nonblank_used_rows)
    then show ?thesis by (simp add: cells)
  qed
  have nonempty': "col_values disp 1 ws' \<noteq> []"
  proof -
    have "r0 < length ws'" using r0(1) len by simp
    moreover have "display disp (cell_at ws' r0 0) \<noteq> []" using kept [OF r0(2)] r0(2) by simp
    ultimately show ?thesis unfolding col_values_empty_iff by blast
  qed
  have all_present: "date r \<in> set (existing_dates (col_values disp 1 ws'))" if r: "r \<in> set records" for r
  proof (cases "date r \<in> set (existing_dates (col_values disp 1 ws))")
    case True
    then obtain row where row: "1 \<le> row" "row < length ws" "display disp (cell_at ws row 0) = date r"
      and ne: "date r \<noteq> []"
      unfolding present_dates_set by blast
    have "display disp (cell_at ws' row 0) = date r" using kept [of row] row(3) ne by simp
    moreover have "row < length ws'" using row(2) len by simp
    ultimately show ?thesis using row(1) ne unfolding present_dates_set by blast
  next
    case False
    then have "r \<in> set new" using r by (simp add: new_def)
    then obtain i where i: "i < length new" "new ! i = r" by (auto simp: in_set_conv_nth)
    have "cell_at ws' (used_rows ws + i) 0 = Text (date r)"
      using i by (simp add: cells sheet_row_def)
    then have "display disp (cell_at ws' (used_rows ws + i) 0) = date r" by simp
    moreover have "1 \<le> used_rows ws + i" using used_pos by simp
    moreover have "used_rows ws + i < length ws'" using i(1) len by simp
    moreover have "date r \<noteq> []" using dates r by simp
    ultimately show ?thesis unfolding present_dates_set by blast
  qed
  then have "filter (\<lambda>r. date r \<notin> set (existing_dates (col_values disp 1 ws'))) records = []"
    by (simp add: filter_empty_conv)
  then show ?thesis using nonempty'
    by (simp add: append_only_result Let_def del: One_nat_def ws_update.simps)
qed

theorem clear_paths_equivalent_witness:
  "clear_ab_primary demo_sheet = clear_ab_fallback demo_sheet \<and>
   clear_ab_fallback demo_sheet = [[Blank, Blank, Text ''note''], [Blank, Blank, Blank, Number 7]]"
proof -
  have "clear_ab_primary demo_sheet = [[Blank, Blank, Text ''note''], [Blank, Blank, Blank, Number 7]]"
    by code_simp
  then show ?thesis using clear_paths_equivalent [of demo_sheet] by simp
qed

theorem overwrite_frame_witness:
  "write_cols_ab_overwrite True [] demo_records =
     [[Text ''Date'', Text ''RHODL Ratio''], [Text ''2021-01-01'', Number 1],
      [Text ''2021-01-02'', Number 2]] \<and>
   cell_at (write_cols_ab_overwrite False demo_sheet demo_records) 1 3 = Number 7 \<and>
   cell_at (write_cols_ab_overwrite False demo_sheet demo_records) 2 0 = Text ''2021-01-02''"
proof -
  have a: "write_cols_ab_overwrite True [] demo_records =
     [[Text ''Date'', Text ''RHODL Ratio''], [Text ''2021-01-01'', Number 1],
      [Text ''2021-01-02'', Number 2]]"
    by code_simp
  have l: "length demo_records = 2" and r1: "demo_records ! 1 = \<lparr>date = ''2021-01-02'',
      rhodl_ratio = 2, price = 0, timestamp_ms = 1609545600000\<rparr>"
    by (simp_all add: demo_records_def)
  have c: "cell_at demo_sheet 1 3 = Number 7" by (simp add: cell_at_def demo_sheet_def)
  from overwrite_frame [of False demo_sheet demo_records]
  have f: "(\<forall>r c. 2 \<le> c \<longrightarrow>
              cell_at (write_cols_ab_overwrite False demo_sheet demo_records) r c = cell_at demo_sheet r c)"
    and g: "(\<forall>i<length demo_records.
      cell_at (write_cols_ab_overwrite False demo_sheet demo_records) (Suc i) 0 =
        Text (date (demo_records ! i)))"
    by blast+
  have "cell_at (write_cols_ab_overwrite False demo_sheet demo_records) 1 3 = Number 7"
    using f c by simp
  moreover have "cell_at (write_cols_ab_overwrite False demo_sheet demo_records) (Suc 1) 0 =
      Text (date (demo_records ! 1))"
    using g l by simp
  ultimately show ?thesis using a r1 by (simp add: numeral_2_eq_2)
qed

theorem append_only_adds_missing_witness:
  "append_only_cols_ab demo_display
      [[Text ''Date'', Text ''RHODL Ratio''], [Text ''2021-01-01'', Number 1]] demo_records =
     ([[Text ''Date'', Text ''RHODL Ratio''], [Text ''2021-01-01'', Number 1],
       [Text ''2021-01-02'', Number 2]], 1) \<and>
   (1::nat) = length (filter (\<lambda>r. date r \<notin> set (existing_dates (col_values demo_display 1
      [[Text ''Date'', Text ''RHODL Ratio''], [Text ''2021-01-01'', Number 1]]))) demo_records)"
proof -
  have h: "append_only_cols_ab demo_display
      [[Text ''Date'', Text ''RHODL Ratio''], [Text ''2021-01-01'', Number 1]] demo_records =
     ([[Text ''Date'', Text ''RHODL Ratio''], [Text ''2021-01-01'', Number 1],
       [Text ''2021-01-02'', Number 2]], 1)"
    by code_simp
  show ?thesis using h append_only_adds_missing [OF h refl refl refl] by blast
qed

theorem append_only_idempotent_witness:
  "col_values demo_display 1 demo_sheet \<noteq> [] \<and>
   append_only_cols_ab demo_display demo_sheet demo_records =
     ([[Text ''Date'', Text ''RHODL Ratio'', Text ''note''],
       [Text ''2021-01-01'', Number 1, Blank, Number 7],
       [Text ''2021-01-02'', Number 2]], 1) \<and>
   append_only_cols_ab demo_display
     [[Text ''Date'', Text ''RHODL Ratio'', Text ''note''],
       [Text ''2021-01-01'', Number 1, Blank, Number 7],
       [Text ''2021-01-02'', Number 2]] demo_records =
     ([[Text ''Date'', Text ''RHODL Ratio'', Text ''note''],
       [Text ''2021-01-01'', Number 1, Blank, Number 7],
       [Text ''2021-01-02'', Number 2]], 0)"
proof -
  have h1: "col_values demo_display 1 demo_sheet \<noteq> []" by code_simp
  have h2: "\<forall>r\<in>set demo_records. date r \<noteq> []" by (simp add: demo_records_def)
  have h3: "append_only_cols_ab demo_display demo_sheet demo_records =
     ([[Text ''Date'', Text ''RHODL Ratio'', Text ''note''],
       [Text ''2021-01-01'', Number 1, Blank, Number 7],
       [Text ''2021-01-02'', Number 2]], 1)"
    by code_simp
  show ?thesis using h1 h3 append_only_idempotent [OF h1 h2 h3] by blast
qed

end
